theory Spec2Isabelle
  imports Main
begin

section \<open>Source text and character classes\<close>

text \<open>
  The lexer of \<^verbatim>\<open>simple_lexer.py\<close> works on a Python \<^verbatim>\<open>str\<close> with the \<^verbatim>\<open>re\<close> module.
  Source text is modelled as a \<^typ>\<open>string\<close>: a list of characters with code points
  0 to 255. The classes \<^verbatim>\<open>\s\<close>, \<^verbatim>\<open>\d\<close> and \<^verbatim>\<open>\w\<close> are the Unicode classes of
  \<^verbatim>\<open>re\<close> for a \<^verbatim>\<open>str\<close> pattern, restricted to that range.
\<close>

definition in_range :: "nat \<Rightarrow> nat \<Rightarrow> char \<Rightarrow> bool" where
  "in_range lo hi c = (lo \<le> of_char c \<and> of_char c \<le> hi)"

definition newline :: char where
  "newline = CHR 0x0A"

definition dquote :: char where
  "dquote = CHR 0x22"

definition squote :: char where
  "squote = CHR 0x27"

definition backslash :: char where
  "backslash = CHR 0x5C"

text \<open>\<^verbatim>\<open>\d\<close>: the decimal digits.\<close>

definition is_digit :: "char \<Rightarrow> bool" where
  "is_digit c = in_range 0x30 0x39 c"

text \<open>\<^verbatim>\<open>[a-zA-Z_]\<close>, the first character of an identifier.\<close>

definition is_ident_start :: "char \<Rightarrow> bool" where
  "is_ident_start c = (in_range 0x41 0x5A c \<or> in_range 0x61 0x7A c \<or> c = CHR ''_'')"

text \<open>
  \<^verbatim>\<open>\w\<close>: alphanumeric characters and the underscore. Above ASCII these are the
  letters and numeric characters of Latin-1.
\<close>

definition is_word :: "char \<Rightarrow> bool" where
  "is_word c =
     (is_digit c \<or> is_ident_start c \<or> c = CHR 0xAA \<or> in_range 0xB2 0xB3 c \<or> c = CHR 0xB5
      \<or> in_range 0xB9 0xBA c \<or> in_range 0xBC 0xBE c \<or> in_range 0xC0 0xD6 c
      \<or> in_range 0xD8 0xF6 c \<or> in_range 0xF8 0xFF c)"

text \<open>\<^verbatim>\<open>\s\<close>: whitespace.\<close>

definition is_space :: "char \<Rightarrow> bool" where
  "is_space c =
     (in_range 0x09 0x0D c \<or> in_range 0x1C 0x20 c \<or> c = CHR 0x85 \<or> c = CHR 0xA0)"

text \<open>\<^verbatim>\<open>.\<close> without DOTALL: any character but the newline.\<close>

definition is_dot :: "char \<Rightarrow> bool" where
  "is_dot c = (c \<noteq> newline)"

definition is_hex :: "char \<Rightarrow> bool" where
  "is_hex c = (is_digit c \<or> in_range 0x61 0x66 c \<or> in_range 0x41 0x46 c)"

section \<open>Regular expressions with backtracking in priority order\<close>

text \<open>
  A position in the text is a cursor: the text before the position, reversed, and the
  text from the position on. The text before is needed by \<^verbatim>\<open>^\<close> and \<^verbatim>\<open>\b\<close>, which
  look at the previous character of the whole text.
\<close>

type_synonym cursor = "string \<times> string"

datatype regex =
    Eps
  | Cls "char \<Rightarrow> bool"
  | Seq regex regex
  | Alt regex regex
  | Star regex
  | LazyStar regex
  | Bol
  | Eol
  | WordB

text \<open>
  \<open>rmatch r z\<close> lists the positions where a match of \<open>r\<close> that starts at \<open>z\<close> can
  end, in the order in which the backtracking matcher of \<^verbatim>\<open>re\<close> tries them: the
  left alternative before the right one, more repetitions before fewer for a greedy
  star, fewer before more for a lazy one. The head of the list is the match \<^verbatim>\<open>re\<close>
  reports when nothing follows the expression.

  A repetition goes on only from a position that consumed text; every star of the
  pattern table has a body that consumes exactly one or two characters.
\<close>

fun star_greedy :: "(cursor \<Rightarrow> cursor list) \<Rightarrow> cursor \<Rightarrow> cursor list" where
  "star_greedy f z =
     concat (map (star_greedy f) (filter (\<lambda>z'. length (snd z') < length (snd z)) (f z))) @ [z]"

fun star_lazy :: "(cursor \<Rightarrow> cursor list) \<Rightarrow> cursor \<Rightarrow> cursor list" where
  "star_lazy f z =
     z # concat (map (star_lazy f) (filter (\<lambda>z'. length (snd z') < length (snd z)) (f z)))"

declare star_greedy.simps [simp del]
declare star_lazy.simps [simp del]

text \<open>\<^verbatim>\<open>^\<close> under MULTILINE: the start of the text, or just after a newline.\<close>

fun at_bol :: "cursor \<Rightarrow> bool" where
  "at_bol ([], a) = True"
| "at_bol (c # b, a) = (c = newline)"

text \<open>\<^verbatim>\<open>$\<close> under MULTILINE: the end of the text, or just before a newline.\<close>

fun at_eol :: "cursor \<Rightarrow> bool" where
  "at_eol (b, []) = True"
| "at_eol (b, c # a) = (c = newline)"

text \<open>\<^verbatim>\<open>\b\<close>: exactly one of the two neighbours is a word character.\<close>

fun word_before :: "cursor \<Rightarrow> bool" where
  "word_before ([], a) = False"
| "word_before (c # b, a) = is_word c"

fun word_after :: "cursor \<Rightarrow> bool" where
  "word_after (b, []) = False"
| "word_after (b, c # a) = is_word c"

definition at_word_boundary :: "cursor \<Rightarrow> bool" where
  "at_word_boundary z = (word_before z \<noteq> word_after z)"

fun step_cls :: "(char \<Rightarrow> bool) \<Rightarrow> cursor \<Rightarrow> cursor list" where
  "step_cls P (b, []) = []"
| "step_cls P (b, c # a) = (if P c then [(c # b, a)] else [])"

fun rmatch :: "regex \<Rightarrow> cursor \<Rightarrow> cursor list" where
  "rmatch Eps z = [z]"
| "rmatch (Cls P) z = step_cls P z"
| "rmatch (Seq r1 r2) z = concat (map (rmatch r2) (rmatch r1 z))"
| "rmatch (Alt r1 r2) z = rmatch r1 z @ rmatch r2 z"
| "rmatch (Star r) z = star_greedy (rmatch r) z"
| "rmatch (LazyStar r) z = star_lazy (rmatch r) z"
| "rmatch Bol z = (if at_bol z then [z] else [])"
| "rmatch Eol z = (if at_eol z then [z] else [])"
| "rmatch WordB z = (if at_word_boundary z then [z] else [])"

subsection \<open>Derived forms\<close>

definition chr :: "char \<Rightarrow> regex" where
  "chr c = Cls (\<lambda>x. x = c)"

definition one_of :: "string \<Rightarrow> regex" where
  "one_of s = Cls (\<lambda>x. x \<in> set s)"

definition none_of :: "string \<Rightarrow> regex" where
  "none_of s = Cls (\<lambda>x. x \<notin> set s)"

definition seqs :: "regex list \<Rightarrow> regex" where
  "seqs rs = foldr Seq rs Eps"

definition lit :: "string \<Rightarrow> regex" where
  "lit s = seqs (map chr s)"

text \<open>\<^verbatim>\<open>a|b|c\<close>: the alternatives in the order written.\<close>

fun alts :: "regex list \<Rightarrow> regex" where
  "alts [] = Cls (\<lambda>x. False)"
| "alts [r] = r"
| "alts (r # rs) = Alt r (alts rs)"

definition plus :: "regex \<Rightarrow> regex" where
  "plus r = Seq r (Star r)"

definition opt :: "regex \<Rightarrow> regex" where
  "opt r = Alt r Eps"

definition words :: "string list \<Rightarrow> regex" where
  "words ws = seqs [WordB, alts (map lit ws), WordB]"

section \<open>The pattern table\<close>

text \<open>
  \<^verbatim>\<open>self.patterns\<close> of \<^verbatim>\<open>SimpleRegexLexer.__init__\<close>, in the order of the dictionary.
\<close>

definition COMMENT :: regex where
  "COMMENT = alts [seqs [lit ''//'', Star (Cls is_dot)],
                   seqs [lit ''/*'', LazyStar (Cls (\<lambda>c. is_space c \<or> \<not> is_space c)), lit ''*/'']]"

definition STANDARD_LIBRARY :: regex where
  "STANDARD_LIBRARY = seqs [Bol, Star (Cls is_space), chr CHR ''#'', Star (Cls is_space),
     lit ''include'', Star (Cls is_space), chr CHR ''<'', plus (none_of ''>''), chr CHR ''>'']"

definition OWN_LIBRARY :: regex where
  "OWN_LIBRARY = seqs [Bol, Star (Cls is_space), chr CHR ''#'', Star (Cls is_space),
     lit ''include'', Star (Cls is_space), chr dquote, plus (none_of [dquote]), chr dquote]"

definition PREPROCESSOR :: regex where
  "PREPROCESSOR = seqs [Bol, Star (Cls is_space), chr CHR ''#'', Star (Cls is_space),
     alts (map lit [''define'', ''undef'', ''ifdef'', ''ifndef'', ''endif'', ''pragma'', ''error'',
                    ''warning'', ''elif'', ''else'']),
     WordB, Star (Cls is_dot), Eol]"

definition STRING :: regex where
  "STRING = seqs [chr dquote,
     Star (Alt (Seq (chr backslash) (Cls is_dot)) (none_of [dquote, backslash])),
     chr dquote]"

text \<open>The group \<^verbatim>\<open>CHAR\<close>; the name alone is notation of the library.\<close>

definition CHAR_LITERAL :: regex where
  "CHAR_LITERAL = seqs [chr squote,
     Alt (Seq (chr backslash) (Cls is_dot)) (none_of [squote, backslash]),
     chr squote]"

definition HEX_NUMBER :: regex where
  "HEX_NUMBER = seqs [chr CHR ''0'', one_of ''xX'', plus (Cls is_hex)]"

definition BINARY_NUMBER :: regex where
  "BINARY_NUMBER = seqs [chr CHR ''0'', one_of ''bB'', plus (one_of ''01'')]"

definition FLOAT_NUMBER :: regex where
  "FLOAT_NUMBER = seqs [
     Alt (seqs [Star (Cls is_digit), chr CHR ''.'', plus (Cls is_digit)])
         (seqs [plus (Cls is_digit), chr CHR ''.'', Star (Cls is_digit)]),
     opt (seqs [one_of ''eE'', opt (one_of ''-+''), plus (Cls is_digit)])]"

definition OCTAL_NUMBER :: regex where
  "OCTAL_NUMBER = seqs [chr CHR ''0'', plus (Cls (in_range 0x30 0x37))]"

definition INT_NUMBER :: regex where
  "INT_NUMBER = plus (Cls is_digit)"

definition KEYWORD :: regex where
  "KEYWORD = words [''if'', ''else'', ''for'', ''while'', ''do'', ''return'', ''class'', ''using'',
     ''struct'', ''public'', ''namespace'', ''private'', ''protected'', ''static'', ''const'',
     ''virtual'', ''new'', ''delete'', ''sizeof'']"

text \<open>The group \<^verbatim>\<open>TYPE\<close>; the name alone is notation of the library.\<close>

definition TYPE_NAME :: regex where
  "TYPE_NAME = words [''int'', ''float'', ''double'', ''char'', ''void'', ''bool'', ''long'', ''short'',
     ''signed'', ''unsigned'']"

definition BOOLEAN :: regex where
  "BOOLEAN = words [''true'', ''false'']"

definition NULL :: regex where
  "NULL = words [''nullptr'', ''NULL'']"

definition OPERATOR_2CHAR :: regex where
  "OPERATOR_2CHAR = alts (map lit [''++'', ''--'', ''->'', ''::'', ''<<'', ''>>'', ''<='', ''>='',
     ''=='', ''!='', ''&&'', ''||'', ''+='', ''-='', ''*='', ''/='', ''%=''])"

definition OPERATOR_1CHAR :: regex where
  "OPERATOR_1CHAR = one_of ''+-*/%=<>!&|~^''"

definition SYMBOL :: regex where
  "SYMBOL = one_of ''{}()[];,.:?''"

definition IDENTIFIER :: regex where
  "IDENTIFIER = Seq (Cls is_ident_start) (Star (Cls is_word))"

definition NAMESPACE :: regex where
  "NAMESPACE = seqs [plus (Cls is_word), lit ''::'', plus (Cls is_word)]"

definition WHITESPACE :: regex where
  "WHITESPACE = plus (Cls is_space)"

definition patterns :: "(string \<times> regex) list" where
  "patterns =
    [(''COMMENT'', COMMENT),
     (''STANDARD_LIBRARY'', STANDARD_LIBRARY),
     (''OWN_LIBRARY'', OWN_LIBRARY),
     (''PREPROCESSOR'', PREPROCESSOR),
     (''STRING'', STRING),
     (''CHAR'', CHAR_LITERAL),
     (''HEX_NUMBER'', HEX_NUMBER),
     (''BINARY_NUMBER'', BINARY_NUMBER),
     (''FLOAT_NUMBER'', FLOAT_NUMBER),
     (''OCTAL_NUMBER'', OCTAL_NUMBER),
     (''INT_NUMBER'', INT_NUMBER),
     (''KEYWORD'', KEYWORD),
     (''TYPE'', TYPE_NAME),
     (''BOOLEAN'', BOOLEAN),
     (''NULL'', NULL),
     (''OPERATOR_2CHAR'', OPERATOR_2CHAR),
     (''OPERATOR_1CHAR'', OPERATOR_1CHAR),
     (''SYMBOL'', SYMBOL),
     (''IDENTIFIER'', IDENTIFIER),
     (''NAMESPACE'', NAMESPACE),
     (''WHITESPACE'', WHITESPACE)]"

section \<open>The master expression and \<^verbatim>\<open>finditer\<close>\<close>

text \<open>
  \<^verbatim>\<open>master_regex\<close> joins the named groups with \<^verbatim>\<open>|\<close>: at a position the first group
  of the table that matches there gives the match and its name (\<^verbatim>\<open>lastgroup\<close>).
\<close>

fun master_regex :: "(string \<times> regex) list \<Rightarrow> cursor \<Rightarrow> (string \<times> cursor) option" where
  "master_regex [] z = None"
| "master_regex ((name, r) # ps) z =
     (case rmatch r z of [] \<Rightarrow> master_regex ps z | z' # _ \<Rightarrow> Some (name, z'))"

text \<open>
  A search tries the position of the cursor, then each later position, up to and
  including the end of the text. It returns the name, where the match starts and where
  it ends.
\<close>

fun search :: "(string \<times> regex) list \<Rightarrow> cursor \<Rightarrow> (string \<times> cursor \<times> cursor) option" where
  "search ps (b, []) =
     (case master_regex ps (b, []) of None \<Rightarrow> None | Some (name, z') \<Rightarrow> Some (name, (b, []), z'))"
| "search ps (b, c # a) =
     (case master_regex ps (b, c # a) of
        None \<Rightarrow> search ps (c # b, a)
      | Some (name, z') \<Rightarrow> Some (name, (b, c # a), z'))"

text \<open>What the loop of \<^verbatim>\<open>tokenize\<close> reads from a match object.\<close>

record rematch =
  lastgroup :: string
  matched :: string
  start_pos :: nat

definition mk_match :: "string \<Rightarrow> cursor \<Rightarrow> cursor \<Rightarrow> rematch" where
  "mk_match name zs ze =
     \<lparr>lastgroup = name,
      matched = take (length (snd zs) - length (snd ze)) (snd zs),
      start_pos = length (fst zs)\<rparr>"

lemma search_start: "search ps z = Some (name, zs, ze) \<Longrightarrow> length (snd zs) \<le> length (snd z)"
proof (induction ps z rule: search.induct)
  case (1 ps b)
  then show ?case by (auto split: option.splits)
next
  case (2 ps b c a)
  then show ?case by (auto split: option.splits)
qed

text \<open>
  \<^verbatim>\<open>finditer\<close>: the matches from left to right, each search starting where the match
  before ended. No group of the table matches the empty string (lemma
  \<open>master_regex_consumes\<close> below), so the branch for an empty match, which steps one
  character on, is never taken.
\<close>

function finditer :: "cursor \<Rightarrow> rematch list" where
  "finditer z =
     (case search patterns z of
        None \<Rightarrow> []
      | Some (name, zs, ze) \<Rightarrow>
          mk_match name zs ze #
          (if length (snd ze) < length (snd zs) then finditer ze
           else (case snd zs of [] \<Rightarrow> [] | c # a \<Rightarrow> finditer (c # fst zs, a))))"
  by pat_completeness auto
termination
  apply (relation "measure (\<lambda>z. length (snd z))")
    apply simp
   apply (auto dest: search_start)
  done

declare finditer.simps [simp del]

section \<open>Tokens, problems and the scanner\<close>

record token =
  ttype :: string
  tvalue :: string
  line :: int
  column :: int
  filename :: string

text \<open>\<^verbatim>\<open>Problem\<close> and \<^verbatim>\<open>ProblemTracker.add_problem\<close> of \<^verbatim>\<open>run_lexer.py\<close>.\<close>

record problem =
  p_line :: int
  message :: string
  solution :: string

definition add_problem :: "problem list \<Rightarrow> int \<Rightarrow> string \<Rightarrow> string \<Rightarrow> problem list" where
  "add_problem problems l m s = problems @ [\<lparr>p_line = l, message = m, solution = s\<rparr>]"

subsection \<open>String helpers of \<^verbatim>\<open>find_problems\<close>\<close>

definition startswith :: "string \<Rightarrow> string \<Rightarrow> bool" where
  "startswith s p = (take (length p) s = p)"

text \<open>\<^verbatim>\<open>sub in s\<close>.\<close>

fun contains :: "string \<Rightarrow> string \<Rightarrow> bool" where
  "contains sub [] = (sub = [])"
| "contains sub (c # s) = (startswith (c # s) sub \<or> contains sub s)"

text \<open>\<^verbatim>\<open>sep.join(xs)\<close>.\<close>

fun join :: "string \<Rightarrow> string list \<Rightarrow> string" where
  "join sep [] = []"
| "join sep [x] = x"
| "join sep (x # xs) = x @ sep @ join sep xs"

text \<open>\<^verbatim>\<open>value.split('(')\<close>; the first argument is the piece being read.\<close>

fun split_paren :: "string \<Rightarrow> string \<Rightarrow> string list" where
  "split_paren cur [] = [cur]"
| "split_paren cur (c # s) =
     (if c = CHR ''('' then cur # split_paren [] s else split_paren (cur @ [c]) s)"

text \<open>\<^verbatim>\<open>value.split('::')\<close>: separators are found from the left and do not overlap.\<close>

fun split_colons :: "string \<Rightarrow> string \<Rightarrow> string list" where
  "split_colons cur [] = [cur]"
| "split_colons cur [c] = [cur @ [c]]"
| "split_colons cur (c # d # s) =
     (if c = CHR '':'' \<and> d = CHR '':'' then cur # split_colons [] s
      else split_colons (cur @ [c]) (d # s))"

text \<open>
  \<^verbatim>\<open>re.search(r'[<"]([^>"]+)[>"]', value)\<close> and its \<^verbatim>\<open>group(1)\<close>: the first and the last
  character of the match are the delimiters, group 1 is what lies between them.
\<close>

definition lib_regex :: regex where
  "lib_regex = seqs [one_of [CHR ''<'', dquote], plus (none_of [CHR ''>'', dquote]),
                     one_of [CHR ''>'', dquote]]"

fun re_search :: "regex \<Rightarrow> cursor \<Rightarrow> string option" where
  "re_search r (b, []) =
     (case rmatch r (b, []) of [] \<Rightarrow> None | ze # _ \<Rightarrow> Some [])"
| "re_search r (b, c # a) =
     (case rmatch r (b, c # a) of
        [] \<Rightarrow> re_search r (c # b, a)
      | ze # _ \<Rightarrow> Some (take (length (c # a) - length (snd ze)) (c # a)))"

definition lib_match :: "string \<Rightarrow> string option" where
  "lib_match val = map_option (\<lambda>m. butlast (tl m)) (re_search lib_regex ([], val))"

subsection \<open>\<^verbatim>\<open>find_problems\<close>\<close>

text \<open>
  The allowed libraries are a Python set; the order in which \<^verbatim>\<open>', '.join\<close> lists them
  is the set's iteration order, taken here as the order written.
\<close>

definition allowed_libs :: "string list" where
  "allowed_libs = [''iostream'', ''stl_library.py'', ''stdio.h'']"

definition restricted_funcs :: "(string \<times> string) list" where
  "restricted_funcs =
     [(''printf'', ''STLLibrary.printf()''),
      (''scanf'', ''STLLibrary.scanf()''),
      (''malloc'', ''STLLibrary.malloc()''),
      (''free'', ''STLLibrary.free()'')]"

definition find_problems :: "token \<Rightarrow> string \<Rightarrow> problem list \<Rightarrow> problem list" where
  "find_problems tok val problems =
     (if ttype tok = ''PREPROCESSOR'' \<and> contains ''include'' val then
        (case lib_match val of
           None \<Rightarrow> problems
         | Some lib \<Rightarrow>
             if lib \<notin> set allowed_libs then
               add_problem problems (line tok) (''Unauthorized library: '' @ lib)
                 (''Allowed: '' @ join '', '' allowed_libs)
             else problems)
      else if ttype tok = ''PREPROCESSOR'' \<and> contains ''define'' val then
        (if CHR ''('' \<in> set val then
           add_problem problems (line tok) (''Function-like macro: '' @ val)
             ''Use constexpr functions instead''
         else
           add_problem problems (line tok) (''Constant macro: '' @ val)
             ''Use constexpr variables instead'')
      else if ttype tok = ''IDENTIFIER'' \<and> CHR ''('' \<in> set val then
        (let func_name = hd (split_paren [] val) in
         case map_of restricted_funcs func_name of
           None \<Rightarrow> problems
         | Some r \<Rightarrow>
             add_problem problems (line tok) (''Direct call to '' @ func_name @ ''()'')
               (''Use '' @ r @ '' instead''))
      else if ttype tok = ''NAMESPACE'' \<and> contains ''std::'' val then
        (let algo_name = last (split_colons [] val) in
         add_problem problems (line tok) (''Using std::'' @ algo_name)
           (''Learning: Create your own '' @ algo_name @ '' implementation''))
      else problems)"

subsection \<open>Line and column\<close>

text \<open>\<^verbatim>\<open>line_starts\<close>: offset 0 and the offset after every newline.\<close>

fun newline_offsets :: "int \<Rightarrow> string \<Rightarrow> int list" where
  "newline_offsets i [] = []"
| "newline_offsets i (c # cs) =
     (if c = newline then (i + 1) # newline_offsets (i + 1) cs else newline_offsets (i + 1) cs)"

definition line_starts :: "string \<Rightarrow> int list" where
  "line_starts code = 0 # newline_offsets 0 code"

text \<open>
  The inner \<^verbatim>\<open>while\<close> of \<^verbatim>\<open>tokenize\<close>:
  \<^verbatim>\<open>while line_num < len(line_starts) and line_starts[line_num] <= start_pos\<close>.
\<close>

function line_loop :: "int list \<Rightarrow> int \<Rightarrow> nat \<Rightarrow> nat" where
  "line_loop ls pos line_num =
     (if line_num < length ls \<and> ls ! line_num \<le> pos then line_loop ls pos (line_num + 1)
      else line_num)"
  by pat_completeness auto
termination
  by (relation "measure (\<lambda>(ls, pos, line_num). length ls - line_num)") auto

declare line_loop.simps [simp del]

subsection \<open>\<^verbatim>\<open>combine_function_calls\<close>\<close>

text \<open>
  The inner \<^verbatim>\<open>while\<close>: the tokens from index \<open>i\<close> on, \<^verbatim>\<open>paren_count\<close> and
  \<^verbatim>\<open>call_tokens\<close>. It returns the lexemes collected and the tokens left.
\<close>

fun collect_call :: "token list \<Rightarrow> int \<Rightarrow> string list \<Rightarrow> string list \<times> token list" where
  "collect_call [] paren_count call_tokens = (call_tokens, [])"
| "collect_call (t # ts) paren_count call_tokens =
     (if paren_count > 0 then
        collect_call ts
          (if tvalue t = ''('' then paren_count + 1
           else if tvalue t = '')'' then paren_count - 1
           else paren_count)
          (call_tokens @ [tvalue t])
      else (call_tokens, t # ts))"

lemma collect_call_length: "length (snd (collect_call ts n acc)) \<le> length ts"
  by (induction ts n acc rule: collect_call.induct) auto

text \<open>The outer \<^verbatim>\<open>while\<close>, on the tokens from index \<open>i\<close> on.\<close>

function combine_function_calls :: "token list \<Rightarrow> token list" where
  "combine_function_calls [] = []"
| "combine_function_calls [t] = [t]"
| "combine_function_calls (t # u # ts) =
     (if ttype t = ''IDENTIFIER'' \<and> ttype u = ''SYMBOL'' \<and> tvalue u = ''('' then
        (case collect_call ts 1 [tvalue t, tvalue u] of
           (call_tokens, rest) \<Rightarrow>
             \<lparr>ttype = ''FUNCTION_CALL'', tvalue = concat call_tokens, line = line t,
              column = column t, filename = filename t\<rparr>
             # combine_function_calls rest)
      else t # combine_function_calls (u # ts))"
  by pat_completeness auto
termination
  apply (relation "measure length")
    apply simp
   apply simp
   apply (metis collect_call_length snd_conv le_imp_less_Suc less_Suc_eq)
  apply simp
  done

subsection \<open>\<^verbatim>\<open>tokenize\<close>\<close>

text \<open>Line and column of the offset \<^verbatim>\<open>match.start()\<close>, both counted from 1.\<close>

definition line_col :: "int list \<Rightarrow> nat \<Rightarrow> int \<times> int" where
  "line_col ls start =
     (let line_num = line_loop ls (int start) 1;
          current_line_start = ls ! (line_num - 1);
          column_num = int start - current_line_start + 1
      in (int line_num, column_num))"

text \<open>\<^verbatim>\<open>Token(token_type, value, line_num, column_num, filename)\<close>.\<close>

definition make_token :: "int list \<Rightarrow> string \<Rightarrow> rematch \<Rightarrow> token" where
  "make_token ls fname m =
     (case line_col ls (start_pos m) of
        (line_num, column_num) \<Rightarrow>
          \<lparr>ttype = lastgroup m, tvalue = matched m, line = line_num, column = column_num,
           filename = fname\<rparr>)"

text \<open>
  One turn of the \<^verbatim>\<open>for\<close> loop over the matches: the state is \<^verbatim>\<open>self.tokens\<close> and
  the problems of the tracker.
\<close>

definition scan_step ::
  "int list \<Rightarrow> string \<Rightarrow> rematch \<Rightarrow> token list \<times> problem list \<Rightarrow> token list \<times> problem list"
where
  "scan_step ls fname m st =
     (if lastgroup m = ''WHITESPACE'' then st
      else
        (let tok = make_token ls fname m
         in (fst st @ [tok], find_problems tok (matched m) (snd st))))"

text \<open>The raw tokens and the problems after the loop, before the calls are combined.\<close>

definition scan :: "string \<Rightarrow> string \<Rightarrow> problem list \<Rightarrow> token list \<times> problem list" where
  "scan code fname problems =
     fold (scan_step (line_starts code) fname) (finditer ([], code)) ([], problems)"

text \<open>
  \<^verbatim>\<open>tokenize\<close> returns the combined tokens; the problems it added are returned with
  them.
\<close>

definition tokenize :: "string \<Rightarrow> string \<Rightarrow> problem list \<Rightarrow> token list \<times> problem list" where
  "tokenize code fname problems =
     (case scan code fname problems of
        (toks, problems') \<Rightarrow> (combine_function_calls toks, problems'))"


section \<open>Notions used in the statements\<close>

text \<open>
  \<open>moves z u z'\<close>: the cursor \<open>z'\<close> is the cursor \<open>z\<close> moved to the right over
  the text \<open>u\<close>. Every end of a match is the start moved over the matched text.
\<close>

definition moves :: "cursor \<Rightarrow> string \<Rightarrow> cursor \<Rightarrow> bool" where
  "moves z u z' = (snd z = u @ snd z' \<and> fst z' = rev u @ fst z)"

text \<open>
  An expression that \<open>consumes\<close> cannot match the empty string: it holds a character
  class on every path.
\<close>

fun consumes :: "regex \<Rightarrow> bool" where
  "consumes (Cls P) = True"
| "consumes (Seq r1 r2) = (consumes r1 \<or> consumes r2)"
| "consumes (Alt r1 r2) = (consumes r1 \<and> consumes r2)"
| "consumes r = False"

text \<open>The matches that become tokens: all but those of the group \<^verbatim>\<open>WHITESPACE\<close>.\<close>

definition raw_matches :: "string \<Rightarrow> rematch list" where
  "raw_matches code = filter (\<lambda>m. lastgroup m \<noteq> ''WHITESPACE'') (finditer ([], code))"

text \<open>
  The trigger of the merge: a token of type \<^verbatim>\<open>IDENTIFIER\<close> whose next token is the
  \<^verbatim>\<open>SYMBOL\<close> \<^verbatim>\<open>(\<close>, somewhere in the list.
\<close>

fun call_adjacent :: "token list \<Rightarrow> bool" where
  "call_adjacent (t # u # ts) =
     ((ttype t = ''IDENTIFIER'' \<and> ttype u = ''SYMBOL'' \<and> tvalue u = ''('') \<or> call_adjacent (u # ts))"
| "call_adjacent ts = False"





section \<open>Where a match can end\<close>

lemma moves_refl: "moves z [] z"
  by (simp add: moves_def)

lemma moves_trans: "moves z u z' \<Longrightarrow> moves z' v z'' \<Longrightarrow> moves z (u @ v) z''"
  by (simp add: moves_def)

lemma moves_length: "moves z u z' \<Longrightarrow> length (snd z) = length u + length (snd z')"
  by (simp add: moves_def)


lemma step_cls_moves: "z' \<in> set (step_cls P z) \<Longrightarrow> \<exists>c. P c \<and> moves z [c] z'"
  by (cases "(P, z)" rule: step_cls.cases) (auto simp: moves_def split: if_splits)

lemma star_greedy_moves:
  "(\<forall>z z'. z' \<in> set (f z) \<longrightarrow> (\<exists>u. moves z u z')) \<Longrightarrow> z' \<in> set (star_greedy f z) \<Longrightarrow>
     \<exists>u. moves z u z'"
proof (induction f z arbitrary: z' rule: star_greedy.induct)
  case (1 f z)
  from "1.prems"(2) have
    "z' = z \<or> (\<exists>y \<in> set (f z). length (snd y) < length (snd z) \<and> z' \<in> set (star_greedy f y))"
    by (subst (asm) star_greedy.simps) auto
  then show ?case
  proof
    assume "z' = z"
    then show ?thesis using moves_refl by blast
  next
    assume "\<exists>y \<in> set (f z). length (snd y) < length (snd z) \<and> z' \<in> set (star_greedy f y)"
    then obtain y where
      y: "y \<in> set (f z)" "length (snd y) < length (snd z)" "z' \<in> set (star_greedy f y)"
      by blast
    from "1.IH" [of y z'] y "1.prems"(1) obtain v where "moves y v z'" by auto
    moreover from "1.prems"(1) y(1) obtain u where "moves z u y" by blast
    ultimately show ?thesis using moves_trans by blast
  qed
qed

lemma star_lazy_moves:
  "(\<forall>z z'. z' \<in> set (f z) \<longrightarrow> (\<exists>u. moves z u z')) \<Longrightarrow> z' \<in> set (star_lazy f z) \<Longrightarrow>
     \<exists>u. moves z u z'"
proof (induction f z arbitrary: z' rule: star_lazy.induct)
  case (1 f z)
  from "1.prems"(2) have
    "z' = z \<or> (\<exists>y \<in> set (f z). length (snd y) < length (snd z) \<and> z' \<in> set (star_lazy f y))"
    by (subst (asm) star_lazy.simps) auto
  then show ?case
  proof
    assume "z' = z"
    then show ?thesis using moves_refl by blast
  next
    assume "\<exists>y \<in> set (f z). length (snd y) < length (snd z) \<and> z' \<in> set (star_lazy f y)"
    then obtain y where
      y: "y \<in> set (f z)" "length (snd y) < length (snd z)" "z' \<in> set (star_lazy f y)"
      by blast
    from "1.IH" [of y z'] y "1.prems"(1) obtain v where "moves y v z'" by auto
    moreover from "1.prems"(1) y(1) obtain u where "moves z u y" by blast
    ultimately show ?thesis using moves_trans by blast
  qed
qed

lemma rmatch_moves: "z' \<in> set (rmatch r z) \<Longrightarrow> \<exists>u. moves z u z'"
proof (induction r arbitrary: z z')
  case Eps
  then show ?case by (auto simp: moves_def)
next
  case (Cls P)
  then show ?case using step_cls_moves by fastforce
next
  case (Seq r1 r2)
  from Seq.prems obtain y where "y \<in> set (rmatch r1 z)" "z' \<in> set (rmatch r2 y)" by auto
  with Seq.IH show ?case using moves_trans by blast
next
  case (Alt r1 r2)
  from Alt.prems have "z' \<in> set (rmatch r1 z) \<or> z' \<in> set (rmatch r2 z)" by simp
  with Alt.IH show ?case by blast
next
  case (Star r)
  then show ?case using star_greedy_moves [of "rmatch r" z' z] by auto
next
  case (LazyStar r)
  then show ?case using star_lazy_moves [of "rmatch r" z' z] by auto
next
  case Bol
  then show ?case by (auto simp: moves_def split: if_splits)
next
  case Eol
  then show ?case by (auto simp: moves_def split: if_splits)
next
  case WordB
  then show ?case by (auto simp: moves_def split: if_splits)
qed

lemma rmatch_consumes:
  "consumes r \<Longrightarrow> z' \<in> set (rmatch r z) \<Longrightarrow> length (snd z') < length (snd z)"
proof (induction r arbitrary: z z')
  case (Cls P)
  then show ?case using step_cls_moves [of z' P z] by (auto simp: moves_def)
next
  case (Seq r1 r2)
  from Seq.prems obtain y where y: "y \<in> set (rmatch r1 z)" "z' \<in> set (rmatch r2 y)" by auto
  from rmatch_moves [OF y(1)] rmatch_moves [OF y(2)]
  have le: "length (snd y) \<le> length (snd z)" "length (snd z') \<le> length (snd y)"
    by (auto simp: moves_def)
  from Seq.prems(1) have "consumes r1 \<or> consumes r2" by simp
  then show ?case
  proof
    assume "consumes r1"
    from Seq.IH(1) [OF this y(1)] le show ?thesis by simp
  next
    assume "consumes r2"
    from Seq.IH(2) [OF this y(2)] le show ?thesis by simp
  qed
next
  case (Alt r1 r2)
  from Alt.prems have "z' \<in> set (rmatch r1 z) \<or> z' \<in> set (rmatch r2 z)"
    and "consumes r1" "consumes r2" by simp_all
  with Alt.IH show ?case by blast
qed simp_all

lemma patterns_consume: "(name, r) \<in> set patterns \<Longrightarrow> consumes r"
  by (auto simp: patterns_def COMMENT_def STANDARD_LIBRARY_def OWN_LIBRARY_def PREPROCESSOR_def
      STRING_def CHAR_LITERAL_def HEX_NUMBER_def BINARY_NUMBER_def FLOAT_NUMBER_def
      OCTAL_NUMBER_def INT_NUMBER_def KEYWORD_def TYPE_NAME_def BOOLEAN_def NULL_def
      OPERATOR_2CHAR_def OPERATOR_1CHAR_def SYMBOL_def IDENTIFIER_def NAMESPACE_def
      WHITESPACE_def seqs_def lit_def chr_def one_of_def none_of_def plus_def opt_def words_def)

text \<open>No group of the table matches the empty string.\<close>

lemma master_regex_Some:
  "master_regex ps z = Some (name, z') \<Longrightarrow>
     \<exists>r. (name, r) \<in> set ps \<and> rmatch r z \<noteq> [] \<and> z' = hd (rmatch r z)"
  by (induction ps z rule: master_regex.induct) (auto split: list.splits)

lemma master_regex_consumes:
  assumes "master_regex patterns z = Some (name, z')"
  shows "length (snd z') < length (snd z)"
proof -
  from master_regex_Some [OF assms] obtain r where
    r: "(name, r) \<in> set patterns" "rmatch r z \<noteq> []" "z' = hd (rmatch r z)" by blast
  then have "z' \<in> set (rmatch r z)" by simp
  with patterns_consume [OF r(1)] show ?thesis by (rule rmatch_consumes)
qed

section \<open>The matches of \<^verbatim>\<open>finditer\<close>\<close>

lemma search_Some:
  "search ps z = Some (name, zs, ze) \<Longrightarrow>
     (\<exists>u. moves z u zs) \<and> master_regex ps zs = Some (name, ze)"
proof (induction ps z rule: search.induct)
  case (1 ps b)
  then show ?case by (auto simp: moves_def split: option.splits)
next
  case (2 ps b c a)
  show ?case
  proof (cases "master_regex ps (b, c # a)")
    case None
    with 2 have "(\<exists>u. moves (c # b, a) u zs) \<and> master_regex ps zs = Some (name, ze)" by simp
    then obtain u where "moves (c # b, a) u zs" and m: "master_regex ps zs = Some (name, ze)"
      by blast
    then have "moves (b, c # a) (c # u) zs" by (simp add: moves_def)
    with m show ?thesis by blast
  next
    case (Some p)
    obtain n z' where "p = (n, z')" by (cases p) auto
    with Some "2.prems" show ?thesis by (auto simp: moves_def)
  qed
qed

text \<open>
  Each match is not empty, so \<open>finditer\<close> always goes on from the end of the match.
\<close>

lemma finditer_unfold:
  "finditer z =
     (case search patterns z of
        None \<Rightarrow> []
      | Some (name, zs, ze) \<Rightarrow> mk_match name zs ze # finditer ze)"
proof (cases "search patterns z")
  case None
  then show ?thesis by (subst finditer.simps) simp
next
  case (Some p)
  obtain name zs ze where p: "p = (name, zs, ze)" by (cases p) auto
  from search_Some [of patterns z name zs ze] Some p
  have "master_regex patterns zs = Some (name, ze)" by simp
  then have "length (snd ze) < length (snd zs)" by (rule master_regex_consumes)
  with Some p show ?thesis by (subst finditer.simps) simp
qed

lemma finditer_mem:
  "m \<in> set (finditer z) \<Longrightarrow>
     \<exists>name zs ze u. moves z u zs \<and> master_regex patterns zs = Some (name, ze)
       \<and> m = mk_match name zs ze"
proof (induction z rule: finditer.induct)
  case (1 z)
  show ?case
  proof (cases "search patterns z")
    case None
    with "1.prems" show ?thesis by (subst (asm) finditer_unfold) simp
  next
    case (Some p)
    obtain name zs ze where p: "p = (name, zs, ze)" by (cases p) auto
    from search_Some [of patterns z name zs ze] Some p obtain u where
      u: "moves z u zs" and mr: "master_regex patterns zs = Some (name, ze)" by auto
    from mr have lt: "length (snd ze) < length (snd zs)" by (rule master_regex_consumes)
    from "1.prems" Some p have "m = mk_match name zs ze \<or> m \<in> set (finditer ze)"
      by (subst (asm) finditer_unfold) auto
    then show ?thesis
    proof
      assume m: "m = mk_match name zs ze"
      with u mr show ?thesis by blast
    next
      assume "m \<in> set (finditer ze)"
      from "1.IH"(1) [OF Some p [symmetric] refl lt this] obtain name' zs' ze' v where
        v: "moves ze v zs'" "master_regex patterns zs' = Some (name', ze')"
           "m = mk_match name' zs' ze'" by blast
      from master_regex_Some [OF mr] obtain r where "ze \<in> set (rmatch r zs)"
        by (metis hd_in_set)
      from rmatch_moves [OF this] obtain w where "moves zs w ze" by blast
      with u v(1) have "moves z ((u @ w) @ v) zs'" using moves_trans by blast
      with v show ?thesis by blast
    qed
  qed
qed

section \<open>Identifier tokens hold no parenthesis\<close>

lemma rmatch_Cls_fun: "rmatch (Cls P) = step_cls P"
  by (rule ext) simp

lemma star_greedy_cls:
  "z' \<in> set (star_greedy (step_cls P) z) \<Longrightarrow> \<exists>u. moves z u z' \<and> (\<forall>c \<in> set u. P c)"
proof (induction "step_cls P" z arbitrary: z' rule: star_greedy.induct)
  case (1 z)
  from "1.prems" have
    "z' = z \<or> (\<exists>y \<in> set (step_cls P z). length (snd y) < length (snd z)
        \<and> z' \<in> set (star_greedy (step_cls P) y))"
    by (subst (asm) star_greedy.simps) auto
  then show ?case
  proof
    assume "z' = z"
    then have "moves z [] z'" by (simp add: moves_def)
    then show ?thesis by fastforce
  next
    assume "\<exists>y \<in> set (step_cls P z). length (snd y) < length (snd z)
        \<and> z' \<in> set (star_greedy (step_cls P) y)"
    then obtain y where
      y: "y \<in> set (step_cls P z)" "length (snd y) < length (snd z)"
         "z' \<in> set (star_greedy (step_cls P) y)"
      by blast
    from "1.hyps" [of y z'] y obtain v where v: "moves y v z'" "\<forall>c \<in> set v. P c" by auto
    from step_cls_moves [OF y(1)] obtain c where c: "P c" "moves z [c] y" by blast
    from moves_trans [OF c(2) v(1)] have "moves z (c # v) z'" by simp
    moreover from c(1) v(2) have "\<forall>x \<in> set (c # v). P x" by simp
    ultimately show ?thesis by blast
  qed
qed

lemma rmatch_IDENTIFIER:
  assumes "z' \<in> set (rmatch IDENTIFIER z)"
  shows "\<exists>u. moves z u z' \<and> u \<noteq> [] \<and> (\<forall>c \<in> set u. is_word c)"
proof -
  from assms obtain y where
    y: "y \<in> set (step_cls is_ident_start z)" "z' \<in> set (star_greedy (step_cls is_word) y)"
    by (auto simp: IDENTIFIER_def rmatch_Cls_fun)
  from step_cls_moves [OF y(1)] obtain c where c: "is_ident_start c" "moves z [c] y" by blast
  from star_greedy_cls [OF y(2)] obtain v where v: "moves y v z'" "\<forall>c \<in> set v. is_word c"
    by blast
  from moves_trans [OF c(2) v(1)] have "moves z (c # v) z'" by simp
  moreover from c(1) have "is_word c" by (simp add: is_word_def)
  ultimately show ?thesis using v(2) by (intro exI [of _ "c # v"]) simp
qed

lemma paren_not_word: "\<not> is_word CHR ''(''"
  by (simp add: is_word_def is_digit_def is_ident_start_def in_range_def)

lemma patterns_IDENTIFIER: "(''IDENTIFIER'', r) \<in> set patterns \<Longrightarrow> r = IDENTIFIER"
  by (simp add: patterns_def)

lemma mk_match_moves: "moves zs u ze \<Longrightarrow> matched (mk_match name zs ze) = u"
  by (simp add: mk_match_def moves_def)

lemma finditer_identifier:
  assumes "m \<in> set (finditer z)" "lastgroup m = ''IDENTIFIER''"
  shows "matched m \<noteq> [] \<and> (\<forall>c \<in> set (matched m). is_word c)"
proof -
  from finditer_mem [OF assms(1)] obtain name zs ze where
    m: "master_regex patterns zs = Some (name, ze)" "m = mk_match name zs ze" by blast
  with assms(2) have name: "name = ''IDENTIFIER''" by (simp add: mk_match_def)
  from master_regex_Some [OF m(1)] name obtain r where
    "(''IDENTIFIER'', r) \<in> set patterns" "ze \<in> set (rmatch r zs)" by (metis hd_in_set)
  with patterns_IDENTIFIER have "ze \<in> set (rmatch IDENTIFIER zs)" by blast
  from rmatch_IDENTIFIER [OF this] obtain u where
    u: "moves zs u ze" "u \<noteq> []" "\<forall>c \<in> set u. is_word c" by blast
  from mk_match_moves [OF u(1)] m(2) have "matched m = u" by simp
  with u show ?thesis by simp
qed

lemma fold_scan_step:
  "fold (scan_step ls fname) ms (ts, ps) =
     (ts @ map (make_token ls fname) (filter (\<lambda>m. lastgroup m \<noteq> ''WHITESPACE'') ms),
      fold (\<lambda>m. find_problems (make_token ls fname m) (matched m))
        (filter (\<lambda>m. lastgroup m \<noteq> ''WHITESPACE'') ms) ps)"
  by (induction ms arbitrary: ts ps) (simp_all add: scan_step_def Let_def)

lemma scan_raw_matches:
  "scan code fname ps =
     (map (make_token (line_starts code) fname) (raw_matches code),
      fold (\<lambda>m. find_problems (make_token (line_starts code) fname m) (matched m))
        (raw_matches code) ps)"
  by (simp add: scan_def raw_matches_def fold_scan_step)

lemma make_token_sel [simp]:
  "ttype (make_token ls fname m) = lastgroup m"
  "tvalue (make_token ls fname m) = matched m"
  "filename (make_token ls fname m) = fname"
  by (simp_all add: make_token_def split: prod.splits)

lemma find_problems_cases:
  "find_problems tok val ps = ps \<or>
   (\<exists>p. find_problems tok val ps = ps @ [p] \<and>
      (startswith (message p) ''Direct call to '' \<longrightarrow>
         ttype tok = ''IDENTIFIER'' \<and> CHR ''('' \<in> set val))"
  by (auto simp: find_problems_def add_problem_def startswith_def Let_def split: option.splits)

lemma fold_find_problems:
  assumes "\<forall>m \<in> set ms. \<not> (lastgroup m = ''IDENTIFIER'' \<and> CHR ''('' \<in> set (matched m))"
  shows "\<exists>new. fold (\<lambda>m. find_problems (make_token ls fname m) (matched m)) ms ps = ps @ new
           \<and> (\<forall>p \<in> set new. \<not> startswith (message p) ''Direct call to '')"
  using assms
proof (induction ms arbitrary: ps)
  case Nil
  then show ?case by simp
next
  case (Cons m ms)
  let ?ps' = "find_problems (make_token ls fname m) (matched m) ps"
  from Cons.prems have nm: "\<not> (lastgroup m = ''IDENTIFIER'' \<and> CHR ''('' \<in> set (matched m))"
    and rest: "\<forall>m \<in> set ms. \<not> (lastgroup m = ''IDENTIFIER'' \<and> CHR ''('' \<in> set (matched m))"
    by simp_all
  from find_problems_cases [of "make_token ls fname m" "matched m" ps] nm
  obtain one where one: "?ps' = ps @ one" "\<forall>p \<in> set one. \<not> startswith (message p) ''Direct call to ''"
    by (cases "?ps' = ps") (auto intro: that [of "[]"])
  from Cons.IH [OF rest, of ?ps'] obtain new where
    new: "fold (\<lambda>m. find_problems (make_token ls fname m) (matched m)) ms ?ps' = ?ps' @ new"
      "\<forall>p \<in> set new. \<not> startswith (message p) ''Direct call to ''" by blast
  from one new show ?case by (intro exI [of _ "one @ new"]) auto
qed

text \<open>
  C3. For every source text, no raw token of type \<^verbatim>\<open>IDENTIFIER\<close> has an open
  parenthesis in its lexeme: the third branch of \<open>find_problems\<close> is never taken, and
  no problem that \<open>tokenize\<close> adds to the tracker is a \<^verbatim>\<open>Direct call to\<close> problem.
\<close>

theorem identifier_never_holds_paren:
  "(\<forall>t \<in> set (fst (scan code fname problems)).
      ttype t = ''IDENTIFIER'' \<longrightarrow> CHR ''('' \<notin> set (tvalue t))
   \<and> (\<exists>new. snd (tokenize code fname problems) = problems @ new
        \<and> (\<forall>p \<in> set new. \<not> startswith (message p) ''Direct call to ''))"
proof -
  have a: "\<forall>m \<in> set (raw_matches code).
      \<not> (lastgroup m = ''IDENTIFIER'' \<and> CHR ''('' \<in> set (matched m))"
  proof (intro ballI notI)
    fix m
    assume m: "m \<in> set (raw_matches code)"
      and b: "lastgroup m = ''IDENTIFIER'' \<and> CHR ''('' \<in> set (matched m)"
    from m have "m \<in> set (finditer ([], code))" by (simp add: raw_matches_def)
    from finditer_identifier [OF this] b have "is_word CHR ''(''" by blast
    with paren_not_word show False by contradiction
  qed
  then have "\<forall>t \<in> set (fst (scan code fname problems)).
      ttype t = ''IDENTIFIER'' \<longrightarrow> CHR ''('' \<notin> set (tvalue t)"
    by (auto simp: scan_raw_matches)
  moreover from fold_find_problems [OF a, of "line_starts code" fname problems]
  have "\<exists>new. snd (tokenize code fname problems) = problems @ new
        \<and> (\<forall>p \<in> set new. \<not> startswith (message p) ''Direct call to '')"
    by (simp add: tokenize_def scan_raw_matches)
  ultimately show ?thesis by blast
qed

theorem identifier_never_holds_paren_witness:
  "hd (fst (scan ''printf(x)'' ''input.txt'' [])) \<in> set (fst (scan ''printf(x)'' ''input.txt'' []))
   \<and> ttype (hd (fst (scan ''printf(x)'' ''input.txt'' []))) = ''IDENTIFIER''
   \<and> CHR ''('' \<notin> set (tvalue (hd (fst (scan ''printf(x)'' ''input.txt'' []))))
   \<and> snd (tokenize ''printf(x)'' ''input.txt'' []) = []"
proof -
  have h: "hd (fst (scan ''printf(x)'' ''input.txt'' []))
             \<in> set (fst (scan ''printf(x)'' ''input.txt'' []))
           \<and> ttype (hd (fst (scan ''printf(x)'' ''input.txt'' []))) = ''IDENTIFIER''"
    by code_simp
  moreover have "snd (tokenize ''printf(x)'' ''input.txt'' []) = []"
    by code_simp
  ultimately show ?thesis
    using identifier_never_holds_paren [of "''printf(x)''" "''input.txt''" "[]"] by blast
qed

section \<open>The raw tokens are ordered and do not overlap\<close>

lemma finditer_mem_text:
  assumes "m \<in> set (finditer z)"
  shows "\<exists>name zs ze u w. moves z u zs \<and> moves zs w ze \<and> w \<noteq> []
           \<and> master_regex patterns zs = Some (name, ze) \<and> m = mk_match name zs ze"
proof -
  from finditer_mem [OF assms] obtain name zs ze u where
    m: "moves z u zs" "master_regex patterns zs = Some (name, ze)" "m = mk_match name zs ze"
    by blast
  from master_regex_Some [OF m(2)] obtain r where "ze \<in> set (rmatch r zs)"
    by (metis hd_in_set)
  from rmatch_moves [OF this] obtain w where w: "moves zs w ze" by blast
  from master_regex_consumes [OF m(2)] moves_length [OF w] have "w \<noteq> []" by auto
  with m w show ?thesis by blast
qed

lemma finditer_start:
  assumes "m \<in> set (finditer z)"
  shows "length (fst z) \<le> start_pos m"
proof -
  from finditer_mem [OF assms] obtain name zs ze u where
    "moves z u zs" "m = mk_match name zs ze" by blast
  then show ?thesis by (simp add: moves_def mk_match_def)
qed

lemma finditer_sorted:
  "sorted_wrt (\<lambda>m n. start_pos m + length (matched m) \<le> start_pos n) (finditer z)"
proof (induction z rule: finditer.induct)
  case (1 z)
  show ?case
  proof (cases "search patterns z")
    case None
    then show ?thesis by (subst finditer_unfold) simp
  next
    case (Some p)
    obtain name zs ze where p: "p = (name, zs, ze)" by (cases p) auto
    from search_Some [of patterns z name zs ze] Some p
    have mr: "master_regex patterns zs = Some (name, ze)" by auto
    from mr have lt: "length (snd ze) < length (snd zs)" by (rule master_regex_consumes)
    from master_regex_Some [OF mr] obtain r where "ze \<in> set (rmatch r zs)"
      by (metis hd_in_set)
    from rmatch_moves [OF this] obtain w where w: "moves zs w ze" by blast
    then have e: "start_pos (mk_match name zs ze) + length (matched (mk_match name zs ze))
                  = length (fst ze)"
      by (simp add: mk_match_def moves_def)
    from "1.IH"(1) [OF Some p [symmetric] refl lt]
    have ih: "sorted_wrt (\<lambda>m n. start_pos m + length (matched m) \<le> start_pos n) (finditer ze)" .
    have "finditer z = mk_match name zs ze # finditer ze"
      using Some p by (subst finditer_unfold) simp
    with ih e finditer_start [of _ ze] show ?thesis by simp
  qed
qed

subsection \<open>Line and column grow with the offset\<close>

lemma line_loop_ge: "n \<le> line_loop ls p n"
proof (induction ls p n rule: line_loop.induct)
  case (1 ls pos line_num)
  show ?case
  proof (cases "line_num < length ls \<and> ls ! line_num \<le> pos")
    case True
    with "1.IH" show ?thesis by (subst line_loop.simps) simp
  next
    case False
    then show ?thesis by (subst line_loop.simps) auto
  qed
qed

lemma line_loop_mono: "p \<le> q \<Longrightarrow> line_loop ls p n \<le> line_loop ls q n"
proof (induction ls p n rule: line_loop.induct)
  case (1 ls pos line_num)
  show ?case
  proof (cases "line_num < length ls \<and> ls ! line_num \<le> pos")
    case True
    with "1.prems" have "line_num < length ls \<and> ls ! line_num \<le> q" by simp
    then have "line_loop ls q line_num = line_loop ls q (line_num + 1)"
      by (subst line_loop.simps) simp
    moreover from True have "line_loop ls pos line_num = line_loop ls pos (line_num + 1)"
      by (subst line_loop.simps) simp
    ultimately show ?thesis using "1.IH" [OF True "1.prems"] by simp
  next
    case False
    then have "line_loop ls pos line_num = line_num" by (subst line_loop.simps) auto
    with line_loop_ge [of line_num ls q] show ?thesis by simp
  qed
qed

lemma line_col_mono:
  assumes "p \<le> q"
  shows "fst (line_col ls p) < fst (line_col ls q) \<or>
         (fst (line_col ls p) = fst (line_col ls q) \<and> snd (line_col ls p) \<le> snd (line_col ls q))"
  using line_loop_mono [of "int p" "int q" ls 1] assms
  by (auto simp: line_col_def Let_def)

lemma line_col_strict:
  assumes "p < q"
  shows "fst (line_col ls p) < fst (line_col ls q) \<or>
         (fst (line_col ls p) = fst (line_col ls q) \<and> snd (line_col ls p) < snd (line_col ls q))"
  using line_loop_mono [of "int p" "int q" ls 1] assms
  by (auto simp: line_col_def Let_def)

lemma make_token_pos [simp]:
  "line (make_token ls fname m) = fst (line_col ls (start_pos m))"
  "column (make_token ls fname m) = snd (line_col ls (start_pos m))"
  by (simp_all add: make_token_def split: prod.splits)

lemma raw_matches_sorted:
  "sorted_wrt (\<lambda>m n. start_pos m + length (matched m) \<le> start_pos n) (raw_matches code)"
  unfolding raw_matches_def by (rule sorted_wrt_filter) (rule finditer_sorted)

lemma raw_matches_text:
  assumes "m \<in> set (raw_matches code)"
  shows "matched m \<noteq> [] \<and> take (length (matched m)) (drop (start_pos m) code) = matched m"
proof -
  from assms have "m \<in> set (finditer ([], code))" by (simp add: raw_matches_def)
  from finditer_mem_text [OF this] obtain name zs ze u w where
    m: "moves ([], code) u zs" "moves zs w ze" "w \<noteq> []" "m = mk_match name zs ze" by blast
  from m(1,2) have "code = u @ w @ snd ze" "start_pos m = length u" "matched m = w"
    using m(4) by (simp_all add: moves_def mk_match_def)
  with m(3) show ?thesis by simp
qed

text \<open>
  C9. For every source text the raw tokens are in non-decreasing order of
  (line, column), even strictly increasing. They are the matches that are not
  whitespace, each made a token; each match is a non-empty piece of the text at its
  start offset, and each ends before the next one starts, so no two spans overlap.
\<close>

theorem raw_tokens_ordered:
  "sorted_wrt (\<lambda>s t. line s < line t \<or> (line s = line t \<and> column s \<le> column t))
     (fst (scan code fname problems))
   \<and> sorted_wrt (\<lambda>s t. line s < line t \<or> (line s = line t \<and> column s < column t))
     (fst (scan code fname problems))
   \<and> fst (scan code fname problems) = map (make_token (line_starts code) fname) (raw_matches code)
   \<and> sorted_wrt (\<lambda>m n. start_pos m + length (matched m) \<le> start_pos n) (raw_matches code)
   \<and> list_all (\<lambda>m. matched m \<noteq> []
        \<and> take (length (matched m)) (drop (start_pos m) code) = matched m) (raw_matches code)"
proof -
  let ?ls = "line_starts code"
  have sub: "list_all (\<lambda>m. matched m \<noteq> []
        \<and> take (length (matched m)) (drop (start_pos m) code) = matched m) (raw_matches code)"
    using raw_matches_text by (simp add: list_all_iff)
  have lt: "sorted_wrt (\<lambda>m n. start_pos m < start_pos n) (raw_matches code)"
  proof (rule sorted_wrt_mono_rel [OF _ raw_matches_sorted])
    fix m n
    assume "m \<in> set (raw_matches code)" "start_pos m + length (matched m) \<le> start_pos n"
    with raw_matches_text [of m code] show "start_pos m < start_pos n"
      by (cases "matched m") auto
  qed
  have strict: "sorted_wrt (\<lambda>s t. line s < line t \<or> (line s = line t \<and> column s < column t))
     (map (make_token ?ls fname) (raw_matches code))"
    unfolding sorted_wrt_map
  proof (rule sorted_wrt_mono_rel [OF _ lt])
    fix m n :: rematch
    assume "start_pos m < start_pos n"
    from line_col_strict [OF this, of ?ls]
    show "line (make_token ?ls fname m) < line (make_token ?ls fname n) \<or>
          (line (make_token ?ls fname m) = line (make_token ?ls fname n) \<and>
           column (make_token ?ls fname m) < column (make_token ?ls fname n))"
      by simp
  qed
  have weak: "sorted_wrt (\<lambda>s t. line s < line t \<or> (line s = line t \<and> column s \<le> column t))
     (map (make_token ?ls fname) (raw_matches code))"
    by (rule sorted_wrt_mono_rel [OF _ strict]) auto
  from weak strict sub raw_matches_sorted show ?thesis
    by (simp add: scan_raw_matches)
qed

theorem raw_tokens_ordered_witness:
  "map (\<lambda>t. (tvalue t, line t, column t)) (fst (scan (''a b'' @ [newline] @ ''c'') ''input.txt'' []))
     = [(''a'', 1, 1), (''b'', 1, 3), (''c'', 2, 1)]
   \<and> sorted_wrt (\<lambda>s t. line s < line t \<or> (line s = line t \<and> column s \<le> column t))
       (fst (scan (''a b'' @ [newline] @ ''c'') ''input.txt'' []))
   \<and> sorted_wrt (\<lambda>m n. start_pos m + length (matched m) \<le> start_pos n)
       (raw_matches (''a b'' @ [newline] @ ''c''))"
proof -
  have "map (\<lambda>t. (tvalue t, line t, column t))
          (fst (scan (''a b'' @ [newline] @ ''c'') ''input.txt'' []))
        = [(''a'', 1, 1), (''b'', 1, 3), (''c'', 2, 1)]"
    by code_simp
  then show ?thesis
    using raw_tokens_ordered [of "''a b'' @ [newline] @ ''c''" "''input.txt''" "[]"] by blast
qed

section \<open>The call merger is idempotent\<close>

lemma call_adjacent_Cons:
  "call_adjacent (t # xs) =
     ((xs \<noteq> [] \<and> ttype t = ''IDENTIFIER'' \<and> ttype (hd xs) = ''SYMBOL'' \<and> tvalue (hd xs) = ''('')
      \<or> call_adjacent xs)"
  by (cases xs) auto

lemma combine_nonempty: "ts \<noteq> [] \<Longrightarrow> combine_function_calls ts \<noteq> []"
  by (cases ts rule: combine_function_calls.cases) (auto split: prod.splits)

lemma combine_head:
  "combine_function_calls ts \<noteq> [] \<Longrightarrow>
     ttype (hd (combine_function_calls ts)) = ''FUNCTION_CALL'' \<or>
     hd (combine_function_calls ts) = hd ts"
  by (cases ts rule: combine_function_calls.cases) (auto split: prod.splits)

lemma combine_no_adjacent: "\<not> call_adjacent (combine_function_calls ts)"
proof (induction ts rule: combine_function_calls.induct)
  case 1
  then show ?case by simp
next
  case (2 t)
  then show ?case by simp
next
  case (3 t u ts)
  show ?case
  proof (cases "ttype t = ''IDENTIFIER'' \<and> ttype u = ''SYMBOL'' \<and> tvalue u = ''(''")
    case True
    obtain call_tokens rest where c: "collect_call ts 1 [tvalue t, tvalue u] = (call_tokens, rest)"
      by (cases "collect_call ts 1 [tvalue t, tvalue u]") auto
    from 3(1) [OF True c [symmetric]] have "\<not> call_adjacent (combine_function_calls rest)" .
    with True c show ?thesis by (simp add: call_adjacent_Cons)
  next
    case False
    from 3(2) [OF False] have ih: "\<not> call_adjacent (combine_function_calls (u # ts))" .
    have "combine_function_calls (u # ts) \<noteq> []"
      by (rule combine_nonempty) simp
    with combine_head [of "u # ts"] have
      "ttype (hd (combine_function_calls (u # ts))) = ''FUNCTION_CALL'' \<or>
       hd (combine_function_calls (u # ts)) = u" by simp
    with False ih show ?thesis by (auto simp add: call_adjacent_Cons)
  qed
qed

lemma combine_fixed: "\<not> call_adjacent ts \<Longrightarrow> combine_function_calls ts = ts"
  by (induction ts rule: combine_function_calls.induct) auto

text \<open>
  C8. For every token list, merging the output of \<open>combine_function_calls\<close> again
  returns it unchanged, and the output holds no \<^verbatim>\<open>IDENTIFIER\<close> token directly followed
  by the \<^verbatim>\<open>SYMBOL\<close> \<^verbatim>\<open>(\<close>.
\<close>

theorem combine_function_calls_idempotent:
  "combine_function_calls (combine_function_calls ts) = combine_function_calls ts
   \<and> \<not> call_adjacent (combine_function_calls ts)"
  using combine_fixed [OF combine_no_adjacent] combine_no_adjacent by blast

section \<open>The scanner on the inputs of the specification\<close>

text \<open>
  C1. For the text \<^verbatim>\<open>#include <cmath>\<close> the only token has the type
  \<^verbatim>\<open>STANDARD_LIBRARY\<close>; the include check of \<open>find_problems\<close> asks for the type
  \<^verbatim>\<open>PREPROCESSOR\<close>, so no problem is added, although \<^verbatim>\<open>cmath\<close> is not an allowed
  library. On the same text under the type \<^verbatim>\<open>PREPROCESSOR\<close> the check does report
  the library, on line 1 (the suggestion lists the allowed set in the order in which
  Python iterates it, and is left out of the statement).
\<close>

theorem include_cmath_reports_nothing:
  "tokenize ''#include <cmath>'' ''input.txt'' [] =
     ([\<lparr>ttype = ''STANDARD_LIBRARY'', tvalue = ''#include <cmath>'', line = 1, column = 1,
        filename = ''input.txt''\<rparr>], [])
   \<and> ''cmath'' \<notin> set allowed_libs
   \<and> map p_line
        (find_problems
          \<lparr>ttype = ''PREPROCESSOR'', tvalue = ''#include <cmath>'', line = 1, column = 1,
           filename = ''input.txt''\<rparr> ''#include <cmath>'' []) = [1]
   \<and> map message
        (find_problems
          \<lparr>ttype = ''PREPROCESSOR'', tvalue = ''#include <cmath>'', line = 1, column = 1,
           filename = ''input.txt''\<rparr> ''#include <cmath>'' []) = [''Unauthorized library: cmath'']"
  by code_simp

text \<open>
  C2. For the text \<^verbatim>\<open>std::sort(v.begin(), v.end())\<close> the group \<^verbatim>\<open>IDENTIFIER\<close> stands
  before \<^verbatim>\<open>NAMESPACE\<close> in the table and takes \<^verbatim>\<open>std\<close>: there is no token of type
  \<^verbatim>\<open>NAMESPACE\<close>, no problem is added, and \<^verbatim>\<open>sort\<close> with its parentheses becomes one
  \<^verbatim>\<open>FUNCTION_CALL\<close> token. A token \<^verbatim>\<open>std::sort\<close> of type \<^verbatim>\<open>NAMESPACE\<close>, had the
  scanner made one, would be reported by \<open>find_problems\<close> and left alone by
  \<open>combine_function_calls\<close>.
\<close>

theorem std_sort_reports_nothing:
  "tokenize ''std::sort(v.begin(), v.end())'' ''input.txt'' [] =
     ([\<lparr>ttype = ''IDENTIFIER'', tvalue = ''std'', line = 1, column = 1,
        filename = ''input.txt''\<rparr>,
       \<lparr>ttype = ''OPERATOR_2CHAR'', tvalue = ''::'', line = 1, column = 4,
        filename = ''input.txt''\<rparr>,
       \<lparr>ttype = ''FUNCTION_CALL'', tvalue = ''sort(v.begin(),v.end())'', line = 1, column = 6,
        filename = ''input.txt''\<rparr>], [])
   \<and> find_problems
        \<lparr>ttype = ''NAMESPACE'', tvalue = ''std::sort'', line = 1, column = 1,
         filename = ''input.txt''\<rparr> ''std::sort'' [] =
       [\<lparr>p_line = 1, message = ''Using std::sort'',
         solution = ''Learning: Create your own sort implementation''\<rparr>]
   \<and> combine_function_calls
        [\<lparr>ttype = ''NAMESPACE'', tvalue = ''std::sort'', line = 1, column = 1,
          filename = ''input.txt''\<rparr>,
         \<lparr>ttype = ''SYMBOL'', tvalue = ''('', line = 1, column = 10, filename = ''input.txt''\<rparr>,
         \<lparr>ttype = ''SYMBOL'', tvalue = '')'', line = 1, column = 11, filename = ''input.txt''\<rparr>] =
        [\<lparr>ttype = ''NAMESPACE'', tvalue = ''std::sort'', line = 1, column = 1,
          filename = ''input.txt''\<rparr>,
         \<lparr>ttype = ''SYMBOL'', tvalue = ''('', line = 1, column = 10, filename = ''input.txt''\<rparr>,
         \<lparr>ttype = ''SYMBOL'', tvalue = '')'', line = 1, column = 11, filename = ''input.txt''\<rparr>]"
  by code_simp

text \<open>
  C5. For the text \<^verbatim>\<open>0x1F + 0b101 + 3.14 + 077 + 42\<close> the tokens are nine: the five
  numbers, each one token, of the types hexadecimal, binary, float, octal and integer in
  this order, and the four operators between them.
\<close>

theorem numeric_disambiguation:
  "map (\<lambda>t. (ttype t, tvalue t)) (fst (tokenize ''0x1F + 0b101 + 3.14 + 077 + 42'' ''input.txt'' [])) =
     [(''HEX_NUMBER'', ''0x1F''), (''OPERATOR_1CHAR'', ''+''),
      (''BINARY_NUMBER'', ''0b101''), (''OPERATOR_1CHAR'', ''+''),
      (''FLOAT_NUMBER'', ''3.14''), (''OPERATOR_1CHAR'', ''+''),
      (''OCTAL_NUMBER'', ''077''), (''OPERATOR_1CHAR'', ''+''),
      (''INT_NUMBER'', ''42'')]"
  by code_simp

text \<open>
  C6. For the text \<^verbatim>\<open>a++b\<close> the tokens are \<^verbatim>\<open>a\<close>, the two-character operator
  \<^verbatim>\<open>++\<close> and \<^verbatim>\<open>b\<close>; no token is the one-character operator \<^verbatim>\<open>+\<close>.
\<close>

theorem increment_priority:
  "tokenize ''a++b'' ''input.txt'' [] =
     ([\<lparr>ttype = ''IDENTIFIER'', tvalue = ''a'', line = 1, column = 1, filename = ''input.txt''\<rparr>,
       \<lparr>ttype = ''OPERATOR_2CHAR'', tvalue = ''++'', line = 1, column = 2,
        filename = ''input.txt''\<rparr>,
       \<lparr>ttype = ''IDENTIFIER'', tvalue = ''b'', line = 1, column = 4, filename = ''input.txt''\<rparr>],
      [])"
  by code_simp

text \<open>
  C7. The raw tokens of \<^verbatim>\<open>foo(a, (b)\<close> are \<^verbatim>\<open>foo ( a , ( b )\<close>, with one parenthesis
  left open. \<open>combine_function_calls\<close> is a total function and turns them into exactly
  one \<^verbatim>\<open>FUNCTION_CALL\<close> token at the position of \<^verbatim>\<open>foo\<close>, whose lexeme is the
  concatenation of all seven lexemes.
\<close>

theorem unbalanced_call_tolerance:
  "map (\<lambda>t. (ttype t, tvalue t)) (fst (scan ''foo(a, (b)'' ''input.txt'' [])) =
     [(''IDENTIFIER'', ''foo''), (''SYMBOL'', ''(''), (''IDENTIFIER'', ''a''), (''SYMBOL'', '',''),
      (''SYMBOL'', ''(''), (''IDENTIFIER'', ''b''), (''SYMBOL'', '')'')]
   \<and> combine_function_calls (fst (scan ''foo(a, (b)'' ''input.txt'' [])) =
     [\<lparr>ttype = ''FUNCTION_CALL'',
       tvalue = concat (map tvalue (fst (scan ''foo(a, (b)'' ''input.txt'' []))),
       line = 1, column = 1, filename = ''input.txt''\<rparr>]
   \<and> concat (map tvalue (fst (scan ''foo(a, (b)'' ''input.txt'' []))) = ''foo(a,(b)''
   \<and> tokenize ''foo(a, (b)'' ''input.txt'' [] =
     ([\<lparr>ttype = ''FUNCTION_CALL'', tvalue = ''foo(a,(b)'', line = 1, column = 1,
        filename = ''input.txt''\<rparr>], [])"
  by code_simp

section \<open>Macro definitions\<close>

text \<open>
  C4. The two texts of the specification are reported as it says:
  \<^verbatim>\<open>#define MAX(a,b) ((a)>(b)?(a):(b))\<close> as a function-like macro and
  \<^verbatim>\<open>#define LIMIT 100\<close> as a constant macro. But not every directive that holds
  \<^verbatim>\<open>define\<close> is reported: the include check comes first and takes every
  \<^verbatim>\<open>PREPROCESSOR\<close> token whose text holds the letters \<^verbatim>\<open>include\<close> anywhere. The
  texts \<^verbatim>\<open>#define include_guard 1\<close> and \<^verbatim>\<open>#define include_once(x) x\<close> are tokens
  of type \<^verbatim>\<open>PREPROCESSOR\<close> that hold \<^verbatim>\<open>define\<close>, and no problem is added for them.
\<close>

theorem define_directive_unreported:
  "tokenize ''#define include_guard 1'' ''input.txt'' [] =
       ([\<lparr>ttype = ''PREPROCESSOR'', tvalue = ''#define include_guard 1'', line = 1, column = 1,
          filename = ''input.txt''\<rparr>], [])
   \<and> contains ''define'' ''#define include_guard 1''
   \<and> tokenize ''#define include_once(x) x'' ''input.txt'' [] =
       ([\<lparr>ttype = ''PREPROCESSOR'', tvalue = ''#define include_once(x) x'', line = 1,
          column = 1, filename = ''input.txt''\<rparr>], [])
   \<and> contains ''define'' ''#define include_once(x) x''
   \<and> tokenize ''#define MAX(a,b) ((a)>(b)?(a):(b))'' ''input.txt'' [] =
       ([\<lparr>ttype = ''PREPROCESSOR'', tvalue = ''#define MAX(a,b) ((a)>(b)?(a):(b))'', line = 1,
          column = 1, filename = ''input.txt''\<rparr>],
        [\<lparr>p_line = 1, message = ''Function-like macro: #define MAX(a,b) ((a)>(b)?(a):(b))'',
          solution = ''Use constexpr functions instead''\<rparr>])
   \<and> tokenize ''#define LIMIT 100'' ''input.txt'' [] =
       ([\<lparr>ttype = ''PREPROCESSOR'', tvalue = ''#define LIMIT 100'', line = 1, column = 1,
          filename = ''input.txt''\<rparr>],
        [\<lparr>p_line = 1, message = ''Constant macro: #define LIMIT 100'',
          solution = ''Use constexpr variables instead''\<rparr>])"
  by code_simp

section \<open>The merge is triggered by adjacent tokens\<close>

subsection \<open>Whitespace between an identifier and its parenthesis\<close>




















subsection \<open>The runs of tokens the merger consumes\<close>



















end
